theory Spec2Isabelle
  imports Main
begin

section \<open>Merger: packages/datastore/src/sync/merger.ts\<close>

text \<open>
  The operation a storage write reports (\<^verbatim>\<open>OpType\<close> of \<^verbatim>\<open>../types\<close>), and the
  sync metadata every synced model instance carries (\<^verbatim>\<open>ModelInstanceMetadata\<close>:
  \<^verbatim>\<open>_version\<close>, \<^verbatim>\<open>_lastChangedAt\<close>, \<^verbatim>\<open>_deleted\<close>; the leading underscore is
  dropped, an Isabelle name cannot start with one). A model type
  \<^verbatim>\<open>T extends ModelInstanceMetadata\<close> is an extension of the record. The local
  record's \<^verbatim>\<open>_version\<close> may be \<^verbatim>\<open>undefined\<close> (the source tests for it), so the
  field is optional.
\<close>

datatype OpType = INSERT | UPDATE | DELETE

record ModelInstanceMetadata =
  version :: "int option"
  lastChangedAt :: int
  deleted :: bool

text \<open>
  JavaScript's \<^verbatim>\<open>a < b\<close> on numbers that may be \<^verbatim>\<open>undefined\<close>: \<^verbatim>\<open>undefined\<close>
  converts to NaN and every comparison with NaN is false.
\<close>

definition js_less :: "int option \<Rightarrow> int option \<Rightarrow> bool" where
  "js_less a b = (case a of None \<Rightarrow> False
                  | Some x \<Rightarrow> (case b of None \<Rightarrow> False | Some y \<Rightarrow> x < y))"

text \<open>
  What the code throws: the destructuring
  \<^verbatim>\<open>[[, result]] = await storage.save(...)\<close> throws a TypeError when the array
  the save returns is empty, and \<^verbatim>\<open>networkMonitor\<close> throws an \<^verbatim>\<open>Error\<close> with a
  message.
\<close>

datatype error = TypeError | Error string

text \<open>
  The storage contract the Merger consumes (\<^verbatim>\<open>../storage/storage\<close>, an external
  collaborator): the operations are parameters, over a store of any type \<open>'s\<close>.
  A write returns the new store. \<open>'p\<close> is the type of predicates and conditions,
  \<open>'k\<close> of the \<^verbatim>\<open>Symbol\<close> a writer identifies itself with (the optional
  \<^verbatim>\<open>mutator\<close> argument), \<open>'c\<close> of model constructors. A storage operation
  whose promise rejects is not modelled.
\<close>

record ('s, 'm, 'p, 'k, 'c) Storage =
  query :: "'s \<Rightarrow> 'c \<Rightarrow> 'p \<Rightarrow> 'm list"
  save :: "'s \<Rightarrow> 'm \<Rightarrow> 'p option \<Rightarrow> 'k option \<Rightarrow> ('m \<times> OpType) list \<times> 's"
  delete :: "'s \<Rightarrow> 'm \<Rightarrow> 'p option \<Rightarrow> 'k option \<Rightarrow> 's"
  batchSave :: "'s \<Rightarrow> 'c \<Rightarrow> 'm list \<Rightarrow> 'k option \<Rightarrow> ('m \<times> OpType) list \<times> 's"

text \<open>
  The helpers the Merger imports from \<^verbatim>\<open>../util\<close>, \<^verbatim>\<open>./utils\<close> and
  \<^verbatim>\<open>../predicates\<close>, parameters as well: \<open>'d\<close> is the type of model definitions
  (\<^verbatim>\<open>SchemaModel\<close>), \<open>'i\<close> of the identifier object.
\<close>

record ('d, 'm, 'i, 'p) Helpers =
  extractPrimaryKeyFieldNames :: "'d \<Rightarrow> string list"
  extractPrimaryKeysAndValues :: "'m \<Rightarrow> string list \<Rightarrow> 'i"
  createForPk :: "'d \<Rightarrow> 'i \<Rightarrow> 'p"
  getIdentifierValue :: "'d \<Rightarrow> 'm \<Rightarrow> string"

text \<open>
  The one operation of the Outbox (\<^verbatim>\<open>./outbox\<close>) the Merger calls, and the
  Merger's two constructor fields.
\<close>

record ('s, 'm, 'd, 'e) MutationEventOutbox =
  getForModel :: "'s \<Rightarrow> 'm \<Rightarrow> 'd \<Rightarrow> 'e list"

record ('s, 'm, 'd, 'e, 'k) ModelMerger =
  outbox :: "('s, 'm, 'd, 'e) MutationEventOutbox"
  ownSymbol :: 'k

text \<open>
  \<^verbatim>\<open>merge\<close>. The result is \<open>Inr None\<close> where the source returns the unassigned
  \<^verbatim>\<open>result\<close> (\<^verbatim>\<open>undefined\<close>). \<^verbatim>\<open>mutationsForModel\<close> is computed and, as in the
  source, used nowhere: the block that tested it is commented out.
\<close>

definition merge ::
  "('s, 'a ModelInstanceMetadata_scheme, 'd, 'e, 'k) ModelMerger \<Rightarrow>
   ('d, 'a ModelInstanceMetadata_scheme, 'i, 'p) Helpers \<Rightarrow>
   ('s, 'a ModelInstanceMetadata_scheme, 'p, 'k, 'c) Storage \<Rightarrow> 's \<Rightarrow>
   'a ModelInstanceMetadata_scheme \<Rightarrow> 'd \<Rightarrow> 'c \<Rightarrow> (error + OpType option) \<times> 's" where
  "merge this util storage s model modelDefinition modelConstructor =
     (let mutationsForModel = getForModel (outbox this) s model modelDefinition;
          isDelete = deleted model;
          modelPkFields = extractPrimaryKeyFieldNames util modelDefinition;
          identifierObject = extractPrimaryKeysAndValues util model modelPkFields;
          predicate = createForPk util modelDefinition identifierObject
      in case query storage s modelConstructor predicate of
           [] \<Rightarrow> (Inr None, s)
         | fromDB # _ \<Rightarrow>
             if version fromDB = None \<or> js_less (version fromDB) (version model) then
               if isDelete then
                 (Inr (Some DELETE), delete storage s model None (Some (ownSymbol this)))
               else
                 (case save storage s model None (Some (ownSymbol this)) of
                    (saved, s') \<Rightarrow>
                      (case saved of [] \<Rightarrow> Inl TypeError
                                   | (_, result) # _ \<Rightarrow> Inr (Some result), s'))
             else (Inr None, s))"

text \<open>
  A JavaScript \<^verbatim>\<open>Map\<close> keeps its entries in insertion order: \<^verbatim>\<open>set\<close> on a key
  that is present replaces the value where the entry stands, on a new key it
  appends; \<^verbatim>\<open>values()\<close> iterates in that order.
\<close>

fun Map_set :: "('k \<times> 'v) list \<Rightarrow> 'k \<Rightarrow> 'v \<Rightarrow> ('k \<times> 'v) list" where
  "Map_set [] k v = [(k, v)]"
| "Map_set ((k', v') # kvs) k v =
     (if k' = k then (k, v) # kvs else (k', v') # Map_set kvs k v)"

definition Map_values :: "('k \<times> 'v) list \<Rightarrow> 'v list" where
  "Map_values itemsMap = map snd itemsMap"

text \<open>\<^verbatim>\<open>mergePage\<close>: the loop that fills \<^verbatim>\<open>itemsMap\<close>, then the page and its save.\<close>

definition itemsMap_of ::
  "('d, 'm, 'i, 'p) Helpers \<Rightarrow> 'd \<Rightarrow> 'm list \<Rightarrow> (string \<times> 'm) list" where
  "itemsMap_of util modelDefinition items =
     fold (\<lambda>item itemsMap.
             Map_set itemsMap (getIdentifierValue util modelDefinition item) item)
          items []"

definition page_of :: "('d, 'm, 'i, 'p) Helpers \<Rightarrow> 'd \<Rightarrow> 'm list \<Rightarrow> 'm list" where
  "page_of util modelDefinition items = Map_values (itemsMap_of util modelDefinition items)"

definition mergePage ::
  "('s, 'm, 'd, 'e, 'k) ModelMerger \<Rightarrow> ('d, 'm, 'i, 'p) Helpers \<Rightarrow>
   ('s, 'm, 'p, 'k, 'c) Storage \<Rightarrow> 's \<Rightarrow> 'c \<Rightarrow> 'm list \<Rightarrow> 'd \<Rightarrow> ('m \<times> OpType) list \<times> 's" where
  "mergePage this util storage s modelConstructor items modelDefinition =
     (let page = page_of util modelDefinition items
      in batchSave storage s modelConstructor page (Some (ownSymbol this)))"

text \<open>
  The identifier predicate \<^verbatim>\<open>merge\<close> builds for the inbound record, and the local
  record it reads with it: the first element of the query's result
  (\<^verbatim>\<open>const [fromDB] = ...\<close>), if any.
\<close>

definition pkPredicate ::
  "('d, 'm, 'i, 'p) Helpers \<Rightarrow> 'd \<Rightarrow> 'm \<Rightarrow> 'p" where
  "pkPredicate util modelDefinition model =
     createForPk util modelDefinition
       (extractPrimaryKeysAndValues util model
          (extractPrimaryKeyFieldNames util modelDefinition))"

definition localRecord ::
  "('d, 'm, 'i, 'p) Helpers \<Rightarrow> ('s, 'm, 'p, 'k, 'c) Storage \<Rightarrow> 's \<Rightarrow> 'm \<Rightarrow> 'd \<Rightarrow> 'c \<Rightarrow>
   'm option" where
  "localRecord util storage s model modelDefinition modelConstructor =
     (case query storage s modelConstructor (pkPredicate util modelDefinition model) of
        [] \<Rightarrow> None
      | fromDB # _ \<Rightarrow> Some fromDB)"

text \<open>What \<^verbatim>\<open>[[, result]] = saved\<close> leaves in \<^verbatim>\<open>result\<close>.\<close>

definition reportedOp :: "('m \<times> OpType) list \<Rightarrow> error + OpType option" where
  "reportedOp saved = (case saved of [] \<Rightarrow> Inl TypeError
                                    | (_, result) # _ \<Rightarrow> Inr (Some result))"

subsection \<open>A storage that records the writes it receives\<close>

text \<open>
  To speak of the calls a method makes, any storage is wrapped into one that
  behaves the same and appends every write call, with its arguments, to a log
  kept beside the store. Queries are not logged: they change nothing.
\<close>

datatype ('m, 'p, 'k) StorageWrite =
    SaveCall 'm "'p option" "'k option"
  | DeleteCall 'm "'p option" "'k option"
  | BatchSaveCall "'m list" "'k option"

fun mutatorOf :: "('m, 'p, 'k) StorageWrite \<Rightarrow> 'k option" where
  "mutatorOf (SaveCall m c k) = k"
| "mutatorOf (DeleteCall m c k) = k"
| "mutatorOf (BatchSaveCall ms k) = k"

definition recording ::
  "('s, 'm, 'p, 'k, 'c) Storage \<Rightarrow>
   ('s \<times> ('m, 'p, 'k) StorageWrite list, 'm, 'p, 'k, 'c) Storage" where
  "recording storage =
     \<lparr> query = (\<lambda>(s, log). query storage s),
       save = (\<lambda>(s, log) m c k.
                 case save storage s m c k of
                   (saved, s') \<Rightarrow> (saved, (s', log @ [SaveCall m c k]))),
       delete = (\<lambda>(s, log) m c k. (delete storage s m c k, log @ [DeleteCall m c k])),
       batchSave = (\<lambda>(s, log) ctor ms k.
                      case batchSave storage s ctor ms k of
                        (saved, s') \<Rightarrow> (saved, (s', log @ [BatchSaveCall ms k]))) \<rparr>"

text \<open>
  Modelled from the spec: the path from the storage layer's change notifications
  to the Outbox, which is not among the sources. The spec (4.2, 6): the origin
  marker distinguishes Merger-originated writes from user-originated ones, and
  a write that carries the sync engine's private marker is not re-enqueued.
  \<open>reenqueued own ws\<close> are the writes among \<open>ws\<close> whose notification goes
  to the Outbox.
\<close>

definition reenqueued ::
  "'k \<Rightarrow> ('m, 'p, 'k) StorageWrite list \<Rightarrow> ('m, 'p, 'k) StorageWrite list" where
  "reenqueued own ws = filter (\<lambda>w. mutatorOf w \<noteq> Some own) ws"

subsection \<open>An in-memory store, for concrete inputs\<close>

text \<open>
  A model with a one-field primary key, and a store of the simplest kind: the
  table is a list of records and the pending mutations a list of the identifiers
  they are for. Saving a record whose identifier is in the table replaces it and
  reports UPDATE, otherwise it is appended and INSERT is reported. It stands in
  for the storage adapter wherever a statement is evaluated at a concrete input.
\<close>

record Todo = ModelInstanceMetadata +
  todoId :: string
  title :: string

record MemStore =
  table :: "Todo list"
  pending :: "string list"

definition memSave :: "MemStore \<Rightarrow> Todo \<Rightarrow> (Todo \<times> OpType) list \<times> MemStore" where
  "memSave s m =
     (if todoId m \<in> todoId ` set (table s)
      then ([(m, UPDATE)],
            s\<lparr>table := map (\<lambda>x. if todoId x = todoId m then m else x) (table s)\<rparr>)
      else ([(m, INSERT)], s\<lparr>table := table s @ [m]\<rparr>))"

fun memBatchSave :: "MemStore \<Rightarrow> Todo list \<Rightarrow> (Todo \<times> OpType) list \<times> MemStore" where
  "memBatchSave s [] = ([], s)"
| "memBatchSave s (m # ms) =
     (case memSave s m of
        (r, s') \<Rightarrow> (case memBatchSave s' ms of (rs, s'') \<Rightarrow> (r @ rs, s'')))"

definition memStorage :: "(MemStore, Todo, Todo \<Rightarrow> bool, nat, unit) Storage" where
  "memStorage =
     \<lparr> query = (\<lambda>s ctor p. filter p (table s)),
       save = (\<lambda>s m c k. memSave s m),
       delete = (\<lambda>s m c k. s\<lparr>table := filter (\<lambda>x. todoId x \<noteq> todoId m) (table s)\<rparr>),
       batchSave = (\<lambda>s ctor ms k. memBatchSave s ms) \<rparr>"

definition memUtil :: "(unit, Todo, string, Todo \<Rightarrow> bool) Helpers" where
  "memUtil =
     \<lparr> extractPrimaryKeyFieldNames = (\<lambda>d. [''todoId'']),
       extractPrimaryKeysAndValues = (\<lambda>m fs. todoId m),
       createForPk = (\<lambda>d i. (\<lambda>x. todoId x = i)),
       getIdentifierValue = (\<lambda>d m. todoId m) \<rparr>"

text \<open>
  The Outbox over this store: the pending mutations for the record's identifier.
  \<open>view\<close> reads the store out of the state the storage threads (the state
  itself, or its first component under \<open>recording\<close>).
\<close>

definition memOutbox :: "('s \<Rightarrow> MemStore) \<Rightarrow> ('s, Todo, unit, string) MutationEventOutbox" where
  "memOutbox view =
     \<lparr> getForModel = (\<lambda>s m d. filter (\<lambda>e. e = todoId m) (pending (view s))) \<rparr>"

definition memMerger :: "('s \<Rightarrow> MemStore) \<Rightarrow> ('s, Todo, unit, string, nat) ModelMerger" where
  "memMerger view = \<lparr> outbox = memOutbox view, ownSymbol = 7 \<rparr>"

definition todo :: "string \<Rightarrow> int option \<Rightarrow> bool \<Rightarrow> string \<Rightarrow> Todo" where
  "todo i v d t = \<lparr> version = v, lastChangedAt = 0, deleted = d, todoId = i, title = t \<rparr>"

text \<open>
  The elements of a list in the order of their first occurrence, every later
  repetition dropped: the order in which a \<^verbatim>\<open>Map\<close> filled from the list holds
  its keys.
\<close>

fun firstSeen :: "'a list \<Rightarrow> 'a list" where
  "firstSeen [] = []"
| "firstSeen (x # xs) = x # filter (\<lambda>y. y \<noteq> x) (firstSeen xs)"

section \<open>Connectivity monitor: ReachabilityNavigator in src/unnamed/part 000\<close>

text \<open>
  \<^verbatim>\<open>NetworkStatus\<close>, and the \<^verbatim>\<open>netInfo\<close> argument: it may be missing
  (\<^verbatim>\<open>netInfo?: any\<close>) and, when given, may lack \<^verbatim>\<open>fetch\<close>; the guard of
  \<^verbatim>\<open>networkMonitor\<close> tests the two for presence. What a reachability probe
  answers is not computed here: each answer enters as the value of the callback
  that receives it, and a fetch that rejects or never resolves calls nothing.
\<close>

record NetworkStatus =
  online :: bool

record 'f NetInfo =
  fetch :: "'f option"

text \<open>
  The Observable \<^verbatim>\<open>networkMonitor\<close> returns is cold: it holds the subscriber
  function, which closes over \<^verbatim>\<open>netInfo\<close>, and nothing runs until it is
  subscribed to.
\<close>

datatype 'f Observable = Observable 'f

text \<open>
  One subscription: the observer the subscriber function is called with and the
  variables of that call's closure. \<^verbatim>\<open>closed\<close> is the observer's flag,
  \<open>onlineVar\<close> the closure's \<^verbatim>\<open>let online\<close>, \<open>intervalSet\<close> whether the timer
  \<^verbatim>\<open>id\<close> is still set, and \<open>received\<close> the values the observer's
  \<^verbatim>\<open>next\<close> has delivered, oldest first. Observers are objects compared by
  identity, so the state keeps them in a store indexed by their identity, and
  the static \<^verbatim>\<open>_observers\<close> array holds identities.
\<close>

record Subscription =
  closed :: bool
  onlineVar :: bool
  received :: "NetworkStatus list"
  intervalSet :: bool

record Reachability =
  subscriptions :: "nat \<Rightarrow> Subscription"
  observers :: "nat list"
  nextObserver :: nat
  logged :: "(string \<times> bool option) list"

definition updSub :: "nat \<Rightarrow> (Subscription \<Rightarrow> Subscription) \<Rightarrow> Reachability \<Rightarrow> Reachability" where
  "updSub observer f st =
     st\<lparr>subscriptions := (subscriptions st)(observer := f (subscriptions st observer))\<rparr>"

definition loggerLog :: "string \<Rightarrow> bool option \<Rightarrow> Reachability \<Rightarrow> Reachability" where
  "loggerLog msg arg st = st\<lparr>logged := logged st @ [(msg, arg)]\<rparr>"

text \<open>
  \<^verbatim>\<open>observer.next(value)\<close> of zen-observable: delivered to the subscriber unless
  the subscription is closed, in which case the call does nothing.
\<close>

definition observerNext :: "nat \<Rightarrow> NetworkStatus \<Rightarrow> Reachability \<Rightarrow> Reachability" where
  "observerNext observer status st =
     (if closed (subscriptions st observer) then st
      else updSub observer (\<lambda>sub. sub\<lparr>received := received sub @ [status]\<rparr>) st)"

text \<open>
  \<^verbatim>\<open>networkMonitor\<close>: the guard \<^verbatim>\<open>!(netInfo && netInfo.fetch)\<close> throws before the
  Observable is built. The state is threaded to show that neither outcome
  touches it.
\<close>

definition networkMonitor ::
  "'f NetInfo option \<Rightarrow> Reachability \<Rightarrow> (error + 'f Observable) \<times> Reachability" where
  "networkMonitor netInfo st =
     (case netInfo of
        None \<Rightarrow>
          (Inl (Error ''NetInfo must be passed to networkMonitor to enable reachability in React Native''), st)
      | Some n \<Rightarrow>
          (case fetch n of
             None \<Rightarrow>
               (Inl (Error ''NetInfo must be passed to networkMonitor to enable reachability in React Native''), st)
           | Some f \<Rightarrow> (Inr (Observable f), st)))"

text \<open>
  Subscribing runs the subscriber function with a new observer: it logs, sets
  \<^verbatim>\<open>online = false\<close>, starts the initial fetch and the interval, and pushes the
  observer onto \<^verbatim>\<open>_observers\<close>. The result is the observer's identity.
\<close>

definition subscribe :: "'f Observable \<Rightarrow> Reachability \<Rightarrow> nat \<times> Reachability" where
  "subscribe observable st =
     (let observer = nextObserver st;
          st1 = loggerLog ''subscribing to reachability in React Native'' None st;
          st2 = st1\<lparr>subscriptions := (subscriptions st1)
                  (observer := \<lparr>closed = False, onlineVar = False, received = [],
                                intervalSet = True\<rparr>),
                  nextObserver := Suc observer\<rparr>
      in (observer, st2\<lparr>observers := observers st2 @ [observer]\<rparr>))"

text \<open>The \<^verbatim>\<open>then\<close> callback of the initial fetch, with the value it receives.\<close>

definition initialFetchResolved :: "nat \<Rightarrow> bool \<Rightarrow> Reachability \<Rightarrow> Reachability" where
  "initialFetchResolved observer isInternetReachable st =
     (let st1 = updSub observer (\<lambda>sub. sub\<lparr>onlineVar := isInternetReachable\<rparr>) st;
          st2 = loggerLog ''Notifying initial reachability state''
                  (Some (onlineVar (subscriptions st1 observer))) st1
      in observerNext observer \<lparr>online = onlineVar (subscriptions st2 observer)\<rparr> st2)"

text \<open>
  The interval's callback from its \<^verbatim>\<open>await\<close> on: one step, since nothing else
  runs between the comparison and the call of \<^verbatim>\<open>next\<close>.
\<close>

definition intervalFetchResolved :: "nat \<Rightarrow> bool \<Rightarrow> Reachability \<Rightarrow> Reachability" where
  "intervalFetchResolved observer isInternetReachable st =
     (if onlineVar (subscriptions st observer) \<noteq> isInternetReachable then
        (let st1 = updSub observer (\<lambda>sub. sub\<lparr>onlineVar := isInternetReachable\<rparr>) st;
             st2 = loggerLog ''Notifying reachability change''
                     (Some (onlineVar (subscriptions st1 observer))) st1
         in observerNext observer \<lparr>online = onlineVar (subscriptions st2 observer)\<rparr> st2)
      else st)"

text \<open>
  Unsubscribing closes the subscription and runs the cleanup function the
  subscriber returned; on a closed subscription it does nothing.
\<close>

definition unsubscribe :: "nat \<Rightarrow> Reachability \<Rightarrow> Reachability" where
  "unsubscribe observer st =
     (if closed (subscriptions st observer) then st
      else
        (let st1 = updSub observer (\<lambda>sub. sub\<lparr>closed := True\<rparr>) st;
             st2 = loggerLog ''unsubscribing reachability'' None st1;
             st3 = updSub observer (\<lambda>sub. sub\<lparr>intervalSet := False\<rparr>) st2
         in st3\<lparr>observers := filter (\<lambda>observer'. observer' \<noteq> observer) (observers st3)\<rparr>))"

text \<open>
  \<^verbatim>\<open>_observerOverride\<close>: the \<^verbatim>\<open>for ... of\<close> iterates the array \<^verbatim>\<open>_observers\<close>
  referred to when the loop started; the assignments inside the loop build new
  arrays and leave the iterated one as it is.
\<close>

fun observerOverrideLoop :: "nat list \<Rightarrow> NetworkStatus \<Rightarrow> Reachability \<Rightarrow> Reachability" where
  "observerOverrideLoop [] status st = st"
| "observerOverrideLoop (observer # rest) status st =
     (if closed (subscriptions st observer) then
        observerOverrideLoop rest status
          (st\<lparr>observers := filter (\<lambda>observer'. observer' \<noteq> observer) (observers st)\<rparr>)
      else observerOverrideLoop rest status (observerNext observer status st))"

definition observerOverride :: "NetworkStatus \<Rightarrow> Reachability \<Rightarrow> Reachability" where
  "observerOverride status st = observerOverrideLoop (observers st) status st"

text \<open>
  What can happen to the monitor, one event per step, and a run of events. The
  handlers the application passes to \<^verbatim>\<open>subscribe\<close> are opaque: a handler that
  itself subscribes or unsubscribes while it is being called is not covered.
\<close>

datatype 'f event =
    Subscribe "'f Observable"
  | InitialFetch nat bool
  | IntervalFetch nat bool
  | Unsubscribe nat
  | Override NetworkStatus

fun step :: "'f event \<Rightarrow> Reachability \<Rightarrow> Reachability" where
  "step (Subscribe observable) st = snd (subscribe observable st)"
| "step (InitialFetch observer v) st = initialFetchResolved observer v st"
| "step (IntervalFetch observer v) st = intervalFetchResolved observer v st"
| "step (Unsubscribe observer) st = unsubscribe observer st"
| "step (Override status) st = observerOverride status st"

definition run :: "'f event list \<Rightarrow> Reachability \<Rightarrow> Reachability" where
  "run es st = fold step es st"

text \<open>
  The events that can follow the initial fetch of a given observer while the
  test override is not used: everything but an override and a second
  resolution of that initial fetch, which the promise excludes.
\<close>

fun pollOnly :: "nat \<Rightarrow> 'f event \<Rightarrow> bool" where
  "pollOnly observer (Override status) = False"
| "pollOnly observer (InitialFetch i v) = (i \<noteq> observer)"
| "pollOnly observer e = True"

text \<open>The monitor before anything has subscribed: \<^verbatim>\<open>_observers = []\<close>.\<close>

definition noReachability :: Reachability where
  "noReachability =
     \<lparr> subscriptions = (\<lambda>i. \<lparr>closed = True, onlineVar = False, received = [],
                               intervalSet = False\<rparr>),
       observers = [], nextObserver = 0, logged = [] \<rparr>"

text \<open>
  Events that leave a given observer alone: those of other observers, and no
  override.
\<close>

fun otherOnly :: "nat \<Rightarrow> 'f event \<Rightarrow> bool" where
  "otherOnly observer (Subscribe observable) = True"
| "otherOnly observer (InitialFetch i v) = (i \<noteq> observer)"
| "otherOnly observer (IntervalFetch i v) = (i \<noteq> observer)"
| "otherOnly observer (Unsubscribe i) = (i \<noteq> observer)"
| "otherOnly observer (Override status) = False"

text \<open>
  The state of an observer whose closure variable agrees with what it was last
  sent: it is allocated, has received something, no two values in a row are the
  same, and, unless it is closed, \<^verbatim>\<open>online\<close> is the last value it received.
\<close>

definition inSync :: "nat \<Rightarrow> Reachability \<Rightarrow> bool" where
  "inSync i st =
     (i < nextObserver st \<and> received (subscriptions st i) \<noteq> [] \<and>
      distinct_adj (received (subscriptions st i)) \<and>
      (closed (subscriptions st i) \<or>
       onlineVar (subscriptions st i) = online (last (received (subscriptions st i)))))"




section \<open>Outbox (spec 4.1)\<close>

text \<open>
  The Merger imports \<^verbatim>\<open>MutationEventOutbox\<close> from \<^verbatim>\<open>./outbox\<close>; that file is not
  among the sources. Every definition of this section is therefore written from
  the text of the spec.
\<close>

text \<open>
  Modelled from the spec: the operation type of a MutationEvent (section 3),
  one of CREATE, UPDATE and DELETE; its declaration is missing with
  \<^verbatim>\<open>./outbox\<close>.
\<close>

datatype OperationType = Create | Update | Delete

text \<open>
  Modelled from the spec: the MutationEvent of section 3, whose source
  (\<^verbatim>\<open>./outbox\<close> and the types it uses) is missing. It carries an identifier
  (\<open>modelId\<close>), a model name, an operation type, data, an optional condition,
  a creation time and an attempt count.
\<close>

record ('i, 'd) MutationEvent =
  modelId :: 'i
  modelName :: string
  operationType :: OperationType
  data :: 'd
  condition :: "string option"
  createdAt :: nat
  attemptCount :: nat

text \<open>
  Modelled from the spec: the key of the Outbox, missing with \<^verbatim>\<open>./outbox\<close>. The
  Outbox holds at most one pending event per model name and identifier.
\<close>

definition eventKey :: "('i, 'd) MutationEvent \<Rightarrow> string \<times> 'i" where
  "eventKey ev = (modelName ev, modelId ev)"















section \<open>PredicateCompiler (spec 4.4)\<close>

text \<open>
  The code that compiles selective-sync expressions and checks them against the
  backend's limits is not among the sources; only its tests are
  (\<^verbatim>\<open>__tests__/connectivityHandling.test.ts\<close>). Every definition of this section
  is written from the text of the spec, and checked against those tests further
  down.
\<close>

text \<open>
  Modelled from the spec: the FilterNode of section 3, whose source (the
  compiler of sync expressions) is missing. A tree of leaves \<open>{field, operator,
  value}\<close> combined by AND, OR and NOT.
\<close>

datatype FilterNode =
    Leaf string string string
  | AndGroup "FilterNode list"
  | OrGroup "FilterNode list"
  | NotNode FilterNode

text \<open>
  Modelled from the spec: the backend limits a filter is checked against
  (sections 3 and 4.4), missing with the compiler: the maximum number of
  distinct field names and the maximum number of combinations. The third limit,
  one constraint per field in an AND group, has no number to configure.
\<close>

record Limits =
  maxFields :: nat
  maxCombinations :: nat

text \<open>
  Modelled from the spec: the field names referenced anywhere in the tree, with
  repetitions (4.4, first check); the function is missing with the compiler.
\<close>

fun fieldNames :: "FilterNode \<Rightarrow> string list" where
  "fieldNames (Leaf field operator v) = [field]"
| "fieldNames (AndGroup gs) = concat (map fieldNames gs)"
| "fieldNames (OrGroup gs) = concat (map fieldNames gs)"
| "fieldNames (NotNode g) = fieldNames g"

text \<open>
  Modelled from the spec: the AND groups of the tree, each as the list of its
  members (4.4, second check); the function is missing with the compiler.
\<close>

fun andGroups :: "FilterNode \<Rightarrow> FilterNode list list" where
  "andGroups (Leaf field operator v) = []"
| "andGroups (AndGroup gs) = gs # concat (map andGroups gs)"
| "andGroups (OrGroup gs) = concat (map andGroups gs)"
| "andGroups (NotNode g) = andGroups g"

text \<open>
  Modelled from the spec: the fields the leaves of one group constrain (4.4,
  second check: the same field name more than once in a single AND group); the
  function is missing with the compiler. The nested test of
  \<^verbatim>\<open>connectivityHandling.test.ts\<close> accepts an AND group whose OR member names one
  field twice, so only the group's own leaves count.
\<close>

fun leafFields :: "FilterNode list \<Rightarrow> string list" where
  "leafFields [] = []"
| "leafFields (Leaf field operator v # gs) = field # leafFields gs"
| "leafFields (g # gs) = leafFields gs"

text \<open>
  Modelled from the spec: the number of combinations (4.4, third check),
  missing with the compiler, read as the cartesian expansion the spec speaks
  of: a leaf is one combination, an OR group has the sum of its members'
  combinations, an AND group the product, a NOT those of its member.
\<close>

fun combinations :: "FilterNode \<Rightarrow> nat" where
  "combinations (Leaf field operator v) = 1"
| "combinations (AndGroup gs) = prod_list (map combinations gs)"
| "combinations (OrGroup gs) = sum_list (map combinations gs)"
| "combinations (NotNode g) = combinations g"

text \<open>
  Modelled from the spec: the diagnostic of a rejection (4.4), missing with the
  compiler. It says which limit was exceeded, how many were found, and the
  limit; for a repeated field it names the field, found is the number of its
  entries in the group and the limit is one.
\<close>

datatype LimitExceeded =
    TooManyFields nat nat
  | RepeatedFieldInGroup string nat nat
  | TooManyCombinations nat nat

text \<open>
  Modelled from the spec: the first repeated field of the first AND group that
  has one, with the number of its entries there.
\<close>

definition repeatedField :: "FilterNode \<Rightarrow> (string \<times> nat) option" where
  "repeatedField node =
     (case find (\<lambda>g. \<not> distinct (leafFields g)) (andGroups node) of
        None \<Rightarrow> None
      | Some g \<Rightarrow>
          (case find (\<lambda>f. 1 < count_list (leafFields g) f) (leafFields g) of
             None \<Rightarrow> None
           | Some f \<Rightarrow> Some (f, count_list (leafFields g) f)))"

text \<open>
  Modelled from the spec: the three checks of \<^verbatim>\<open>feasible\<close> (4.4), missing with
  the compiler, as the limit exceeded, if any; they come in the order the spec
  lists them.
\<close>

definition exceededLimit :: "Limits \<Rightarrow> FilterNode \<Rightarrow> LimitExceeded option" where
  "exceededLimit limits node =
     (if maxFields limits < length (remdups (fieldNames node)) then
        Some (TooManyFields (length (remdups (fieldNames node))) (maxFields limits))
      else
        (case repeatedField node of
           Some (f, n) \<Rightarrow> Some (RepeatedFieldInGroup f n 1)
         | None \<Rightarrow>
             if maxCombinations limits < combinations node then
               Some (TooManyCombinations (combinations node) (maxCombinations limits))
             else None))"

text \<open>
  Modelled from the spec: \<^verbatim>\<open>feasible(FilterNode, limits) -> bool\<close> (4.4), missing
  with the compiler: no limit is exceeded.
\<close>

definition feasible :: "FilterNode \<Rightarrow> Limits \<Rightarrow> bool" where
  "feasible node limits = (exceededLimit limits node = None)"

text \<open>
  Modelled from the spec: what the caller does with a sync expression (4.4),
  missing with the compiler and the subscription processor: the filter of the
  sync query and of each subscription, the predicate to evaluate client-side,
  and the warnings logged.
\<close>

record 'p SyncPlan =
  syncQueryFilter :: "FilterNode option"
  onCreateFilter :: "FilterNode option"
  onUpdateFilter :: "FilterNode option"
  onDeleteFilter :: "FilterNode option"
  clientSidePredicate :: "'p option"
  warnings :: "LimitExceeded list"

text \<open>
  Modelled from the spec: the outcome of the check (4.4), missing with the
  compiler and the subscription processor. On success the one compiled filter
  goes to the sync query and to the three subscriptions. On rejection no filter
  goes anywhere, the diagnostic is logged as a warning and the original
  predicate is evaluated client-side.
\<close>

definition applySyncExpression :: "Limits \<Rightarrow> 'p \<Rightarrow> FilterNode \<Rightarrow> 'p SyncPlan" where
  "applySyncExpression limits predicate node =
     (case exceededLimit limits node of
        None \<Rightarrow>
          \<lparr> syncQueryFilter = Some node, onCreateFilter = Some node,
            onUpdateFilter = Some node, onDeleteFilter = Some node,
            clientSidePredicate = None, warnings = [] \<rparr>
      | Some d \<Rightarrow>
          \<lparr> syncQueryFilter = None, onCreateFilter = None,
            onUpdateFilter = None, onDeleteFilter = None,
            clientSidePredicate = Some predicate, warnings = [d] \<rparr>)"

text \<open>
  The filters of the tests of \<^verbatim>\<open>connectivityHandling.test.ts\<close> ("subscription
  filtering clientside fallback" and the two tests before it), and the limits
  their comments give: five fields, ten combinations.
\<close>

definition serviceLimits :: Limits where
  "serviceLimits = \<lparr> maxFields = 5, maxCombinations = 10 \<rparr>"

definition repeatedFieldInGroupFilter :: FilterNode where
  "repeatedFieldInGroupFilter =
     AndGroup [Leaf ''createdAt'' ''gt'' ''1/1/2023'', Leaf ''createdAt'' ''lt'' ''1/1/2033'']"

definition fieldLimitExceededFilter :: FilterNode where
  "fieldLimitExceededFilter =
     AndGroup [Leaf ''id'' ''eq'' ''123'', Leaf ''field1'' ''beginsWith'' ''a'',
               Leaf ''optionalField1'' ''gt'' ''b'', Leaf ''emails'' ''contains'' ''bob@aol.com'',
               Leaf ''ips'' ''contains'' ''10.0.0.1'', Leaf ''createdAt'' ''gt'' ''1/1/2023'']"

definition combinationsExceededFilter :: FilterNode where
  "combinationsExceededFilter =
     OrGroup [Leaf ''id'' ''eq'' ''123'', Leaf ''field1'' ''beginsWith'' ''a'',
              Leaf ''optionalField1'' ''gt'' ''b'', Leaf ''emails'' ''contains'' ''bob@aol.com'',
              Leaf ''createdAt'' ''gt'' ''1/1/2023'', Leaf ''createdAt'' ''gt'' ''1/2/2023'',
              Leaf ''createdAt'' ''gt'' ''1/3/2023'', Leaf ''createdAt'' ''gt'' ''1/4/2023'',
              Leaf ''createdAt'' ''gt'' ''1/5/2023'', Leaf ''createdAt'' ''gt'' ''1/6/2023'',
              Leaf ''createdAt'' ''gt'' ''1/7/2023'']"

definition containsFilter :: FilterNode where
  "containsFilter = AndGroup [Leaf ''title'' ''contains'' ''cleaning'']"

definition nestedFilter :: FilterNode where
  "nestedFilter =
     OrGroup [AndGroup [Leaf ''field1'' ''eq'' ''field'', Leaf ''createdAt'' ''gt'' ''1/1/2023''],
              AndGroup [OrGroup [Leaf ''optionalField1'' ''beginsWith'' ''a'',
                                 Leaf ''optionalField1'' ''notContains'' ''z''],
                        Leaf ''emails'' ''ne'' ''-'']]"

section \<open>Properties of the Merger\<close>

subsection \<open>Auxiliary facts\<close>

lemma Map_set_keys_old: "k \<in> fst ` set m \<Longrightarrow> map fst (Map_set m k v) = map fst m"
  by (induction m) force+

lemma Map_set_keys_new: "k \<notin> fst ` set m \<Longrightarrow> map fst (Map_set m k v) = map fst m @ [k]"
  by (induction m) auto

lemma Map_set_keys:
  "map fst (Map_set m k v) = (if k \<in> set (map fst m) then map fst m else map fst m @ [k])"
  by (simp add: Map_set_keys_old Map_set_keys_new)

lemma map_of_Map_set: "map_of (Map_set m k v) = (map_of m)(k \<mapsto> v)"
  by (induction m) (auto simp: fun_eq_iff)

lemma set_firstSeen: "set (firstSeen xs) = set xs"
  by (induction xs) auto

lemma distinct_firstSeen: "distinct (firstSeen xs)"
  by (induction xs) (auto simp: set_firstSeen)

text \<open>The keys after the loop, from any starting list of keys.\<close>

lemma fold_keys_acc:
  "fold (\<lambda>x ks. if f x \<in> set ks then ks else ks @ [f x]) items acc =
     acc @ filter (\<lambda>k. k \<notin> set acc) (firstSeen (map f items))"
proof (induction items arbitrary: acc)
  case Nil
  show ?case by simp
next
  case (Cons x xs)
  let ?F = "firstSeen (map f xs)"
  show ?case
  proof (cases "f x \<in> set acc")
    case True
    have "filter (\<lambda>k. k \<notin> set acc) (filter (\<lambda>y. y \<noteq> f x) ?F) = filter (\<lambda>k. k \<notin> set acc) ?F"
      using True by (auto intro: filter_cong)
    then have "acc @ filter (\<lambda>k. k \<notin> set acc) (firstSeen (map f (x # xs))) =
               acc @ filter (\<lambda>k. k \<notin> set acc) ?F"
      using True by simp
    moreover have "fold (\<lambda>x ks. if f x \<in> set ks then ks else ks @ [f x]) (x # xs) acc =
               acc @ filter (\<lambda>k. k \<notin> set acc) ?F"
      using True Cons.IH [of acc] by simp
    ultimately show ?thesis by simp
  next
    case False
    have "filter (\<lambda>k. k \<notin> set acc) (filter (\<lambda>y. y \<noteq> f x) ?F) =
          filter (\<lambda>k. k \<notin> set (acc @ [f x])) ?F"
      by (auto intro: filter_cong)
    then have "acc @ filter (\<lambda>k. k \<notin> set acc) (firstSeen (map f (x # xs))) =
               (acc @ [f x]) @ filter (\<lambda>k. k \<notin> set (acc @ [f x])) ?F"
      using False by simp
    moreover have "fold (\<lambda>x ks. if f x \<in> set ks then ks else ks @ [f x]) (x # xs) acc =
               (acc @ [f x]) @ filter (\<lambda>k. k \<notin> set (acc @ [f x])) ?F"
      using False Cons.IH [of "acc @ [f x]"] by simp
    ultimately show ?thesis by simp
  qed
qed

lemma fold_Map_set_keys:
  "map fst (fold (\<lambda>item m. Map_set m (f item) item) items m) =
     fold (\<lambda>x ks. if f x \<in> set ks then ks else ks @ [f x]) items (map fst m)"
  by (induction items arbitrary: m) (simp_all add: Map_set_keys)

lemma fold_Map_set_lookup:
  "map_of (fold (\<lambda>item m. Map_set m (f item) item) items m) k =
     (if filter (\<lambda>x. f x = k) items = [] then map_of m k
      else Some (last (filter (\<lambda>x. f x = k) items)))"
proof (induction items arbitrary: m)
  case Nil
  show ?case by simp
next
  case (Cons x xs)
  show ?case
  proof (cases "f x = k")
    case True
    then show ?thesis
      using Cons.IH [of "Map_set m (f x) x"] by (simp add: map_of_Map_set)
  next
    case False
    then show ?thesis
      using Cons.IH [of "Map_set m (f x) x"] by (simp add: map_of_Map_set)
  qed
qed

lemma itemsMap_keys:
  "map fst (itemsMap_of util md items) = firstSeen (map (getIdentifierValue util md) items)"
  by (simp add: itemsMap_of_def fold_Map_set_keys fold_keys_acc)

lemma itemsMap_lookup:
  "map_of (itemsMap_of util md items) k =
     (if filter (\<lambda>x. getIdentifierValue util md x = k) items = [] then None
      else Some (last (filter (\<lambda>x. getIdentifierValue util md x = k) items)))"
  by (simp add: itemsMap_of_def fold_Map_set_lookup)

lemma values_by_lookup:
  "distinct (map fst m) \<Longrightarrow> map snd m = map (\<lambda>k. the (map_of m k)) (map fst m)"
proof (induction m)
  case Nil
  show ?case by simp
next
  case (Cons p m)
  have "map (\<lambda>k. the (map_of (p # m) k)) (map fst m) = map (\<lambda>k. the (map_of m k)) (map fst m)"
    using Cons.prems by (intro map_cong refl) (cases p, auto)
  moreover have "the (map_of (p # m) (fst p)) = snd p"
    by (cases p) simp
  ultimately show ?case
    using Cons by simp
qed

lemma page_of_eq:
  "page_of util md items =
     map (\<lambda>k. last (filter (\<lambda>x. getIdentifierValue util md x = k) items))
         (firstSeen (map (getIdentifierValue util md) items))"
proof -
  let ?m = "itemsMap_of util md items"
  let ?ks = "firstSeen (map (getIdentifierValue util md) items)"
  have d: "distinct (map fst ?m)" by (simp add: itemsMap_keys distinct_firstSeen)
  have "map snd ?m = map (\<lambda>k. the (map_of ?m k)) ?ks"
    using values_by_lookup [OF d] by (simp add: itemsMap_keys)
  also have "\<dots> = map (\<lambda>k. last (filter (\<lambda>x. getIdentifierValue util md x = k) items)) ?ks"
    by (rule map_cong) (auto simp: itemsMap_lookup filter_empty_conv set_firstSeen)
  finally show ?thesis by (simp add: page_of_def Map_values_def)
qed

lemma last_occurrence_id:
  assumes "x \<in> set items"
  shows "f (last (filter (\<lambda>z. f z = f x) items)) = f x"
proof -
  from assms have ne: "filter (\<lambda>z. f z = f x) items \<noteq> []"
    by (auto simp: filter_empty_conv)
  from last_in_set [OF ne] show ?thesis by simp
qed

lemma page_ids:
  "map (getIdentifierValue util md) (page_of util md items) =
     firstSeen (map (getIdentifierValue util md) items)"
proof -
  let ?g = "getIdentifierValue util md"
  have *: "?g (last (filter (\<lambda>x. ?g x = k) items)) = k"
    if "k \<in> set (firstSeen (map ?g items))" for k
  proof -
    from that obtain x where "x \<in> set items" "?g x = k"
      by (auto simp: set_firstSeen)
    then show ?thesis
      using last_occurrence_id [of x items ?g] by simp
  qed
  have "map (\<lambda>k. ?g (last (filter (\<lambda>x. ?g x = k) items))) (firstSeen (map ?g items)) =
        firstSeen (map ?g items)"
    by (rule map_idI) (rule *)
  then show ?thesis
    by (simp add: page_of_eq comp_def)
qed

lemma set_page_of:
  "set (page_of util md items) =
     (\<lambda>x. last (filter (\<lambda>z. getIdentifierValue util md z = getIdentifierValue util md x) items))
       ` set items"
  by (simp add: page_of_eq set_firstSeen image_image)

subsection \<open>The version rule of merge\<close>

text \<open>
  C1. For an inbound record \<open>r\<close>, with \<open>l\<close> the local record of the same
  identifier: when there is no local record, merge writes nothing and returns
  nothing. When there is one, merge writes if and only if the version of \<open>l\<close>
  is undefined or strictly less than that of \<open>r\<close>; the write is one delete of
  \<open>r\<close> with result DELETE when \<open>r\<close> is a tombstone, one save of \<open>r\<close> with
  the operation the save reports otherwise; in the remaining case, and so
  whenever the local version is at least the inbound one, nothing is written
  and the store is as before. Stated over the recording wrapper of an arbitrary
  storage, so that the writes themselves are visible.
\<close>

theorem merge_version_rule:
  "(localRecord util storage s r md ctor = None \<longrightarrow>
      merge this util (recording storage) (s, log) r md ctor = (Inr None, (s, log))) \<and>
   (\<forall>l. localRecord util storage s r md ctor = Some l \<longrightarrow>
      ((version l = None \<or> js_less (version l) (version r)) =
         (snd (snd (merge this util (recording storage) (s, log) r md ctor)) \<noteq> log)) \<and>
      ((version l = None \<or> js_less (version l) (version r)) \<and> deleted r \<longrightarrow>
         merge this util (recording storage) (s, log) r md ctor =
           (Inr (Some DELETE),
            (delete storage s r None (Some (ownSymbol this)),
             log @ [DeleteCall r None (Some (ownSymbol this))]))) \<and>
      ((version l = None \<or> js_less (version l) (version r)) \<and> \<not> deleted r \<longrightarrow>
         merge this util (recording storage) (s, log) r md ctor =
           (reportedOp (fst (save storage s r None (Some (ownSymbol this)))),
            (snd (save storage s r None (Some (ownSymbol this))),
             log @ [SaveCall r None (Some (ownSymbol this))]))) \<and>
      (\<not> (version l = None \<or> js_less (version l) (version r)) \<longrightarrow>
         merge this util (recording storage) (s, log) r md ctor = (Inr None, (s, log))) \<and>
      (\<forall>a b. version l = Some a \<and> version r = Some b \<and> b \<le> a \<longrightarrow>
         merge this util (recording storage) (s, log) r md ctor = (Inr None, (s, log))))"
  by (auto simp: merge_def localRecord_def pkPredicate_def recording_def reportedOp_def
      js_less_def Let_def split: list.splits prod.splits option.splits)

theorem merge_version_rule_witness:
  "localRecord memUtil memStorage \<lparr>table = [], pending = []\<rparr>
      (todo ''a'' (Some 2) False ''y'') () () = None \<and>
   merge (memMerger fst) memUtil (recording memStorage) (\<lparr>table = [], pending = []\<rparr>, [])
      (todo ''a'' (Some 2) False ''y'') () () = (Inr None, (\<lparr>table = [], pending = []\<rparr>, [])) \<and>
   localRecord memUtil memStorage \<lparr>table = [todo ''a'' (Some 1) False ''x''], pending = []\<rparr>
      (todo ''a'' (Some 2) False ''y'') () () = Some (todo ''a'' (Some 1) False ''x'') \<and>
   merge (memMerger fst) memUtil (recording memStorage)
      (\<lparr>table = [todo ''a'' (Some 1) False ''x''], pending = []\<rparr>, [])
      (todo ''a'' (Some 2) False ''y'') () () =
     (Inr (Some UPDATE), (\<lparr>table = [todo ''a'' (Some 2) False ''y''], pending = []\<rparr>,
        [SaveCall (todo ''a'' (Some 2) False ''y'') None (Some 7)])) \<and>
   merge (memMerger fst) memUtil (recording memStorage)
      (\<lparr>table = [todo ''a'' None False ''x''], pending = []\<rparr>, [])
      (todo ''a'' (Some 2) True ''y'') () () =
     (Inr (Some DELETE), (\<lparr>table = [], pending = []\<rparr>,
        [DeleteCall (todo ''a'' (Some 2) True ''y'') None (Some 7)])) \<and>
   merge (memMerger fst) memUtil (recording memStorage)
      (\<lparr>table = [todo ''a'' (Some 2) False ''x''], pending = []\<rparr>, [])
      (todo ''a'' (Some 2) False ''y'') () () =
     (Inr None, (\<lparr>table = [todo ''a'' (Some 2) False ''x''], pending = []\<rparr>, []))"
  using merge_version_rule [of memUtil memStorage "\<lparr>table = [], pending = []\<rparr>"
          "todo ''a'' (Some 2) False ''y''" "()" "()" "memMerger fst" "[]"]
        merge_version_rule [of memUtil memStorage
          "\<lparr>table = [todo ''a'' (Some 1) False ''x''], pending = []\<rparr>"
          "todo ''a'' (Some 2) False ''y''" "()" "()" "memMerger fst" "[]"]
        merge_version_rule [of memUtil memStorage
          "\<lparr>table = [todo ''a'' None False ''x''], pending = []\<rparr>"
          "todo ''a'' (Some 2) True ''y''" "()" "()" "memMerger fst" "[]"]
        merge_version_rule [of memUtil memStorage
          "\<lparr>table = [todo ''a'' (Some 2) False ''x''], pending = []\<rparr>"
          "todo ''a'' (Some 2) False ''y''" "()" "()" "memMerger fst" "[]"]
  by (simp add: localRecord_def pkPredicate_def memUtil_def memStorage_def memSave_def
        todo_def js_less_def reportedOp_def memMerger_def)

subsection \<open>Pending mutations of the Outbox\<close>




subsection \<open>mergePage\<close>

text \<open>
  C4. The page mergePage saves holds each identifier of the batch once, and its
  records are exactly the last occurrences, in the batch, of their identifiers,
  whatever their versions. mergePage makes one storage write, a batchSave of
  that page, and what a query of the local store would answer has no part in
  it: the page is a function of the batch alone, and replacing the storage's
  query operation changes nothing.
\<close>

theorem mergePage_keeps_last_occurrence:
  "distinct (map (getIdentifierValue util md) (page_of util md items)) \<and>
   set (page_of util md items) =
     (\<lambda>x. last (filter (\<lambda>z. getIdentifierValue util md z = getIdentifierValue util md x) items))
       ` set items \<and>
   mergePage this util (recording storage) (s, log) ctor items md =
     (fst (batchSave storage s ctor (page_of util md items) (Some (ownSymbol this))),
      (snd (batchSave storage s ctor (page_of util md items) (Some (ownSymbol this))),
       log @ [BatchSaveCall (page_of util md items) (Some (ownSymbol this))])) \<and>
   mergePage this util (recording (storage\<lparr>query := q\<rparr>)) (s, log) ctor items md =
     mergePage this util (recording storage) (s, log) ctor items md"
  by (simp add: page_ids distinct_firstSeen set_page_of mergePage_def recording_def Let_def
        split: prod.splits)

theorem mergePage_keeps_last_occurrence_witness:
  "page_of memUtil () [todo ''a'' (Some 5) False ''x'', todo ''b'' (Some 1) False ''y'',
                       todo ''a'' (Some 3) False ''z''] =
     [todo ''a'' (Some 3) False ''z'', todo ''b'' (Some 1) False ''y''] \<and>
   mergePage (memMerger fst) memUtil (recording memStorage)
      (\<lparr>table = [todo ''a'' (Some 9) False ''w''], pending = []\<rparr>, []) ()
      [todo ''a'' (Some 5) False ''x'', todo ''b'' (Some 1) False ''y'',
       todo ''a'' (Some 3) False ''z''] () =
     ([(todo ''a'' (Some 3) False ''z'', UPDATE), (todo ''b'' (Some 1) False ''y'', INSERT)],
      (\<lparr>table = [todo ''a'' (Some 3) False ''z'', todo ''b'' (Some 1) False ''y''], pending = []\<rparr>,
       [BatchSaveCall [todo ''a'' (Some 3) False ''z'', todo ''b'' (Some 1) False ''y''] (Some 7)]))"
  using mergePage_keeps_last_occurrence [of memUtil "()"
          "[todo ''a'' (Some 5) False ''x'', todo ''b'' (Some 1) False ''y'',
            todo ''a'' (Some 3) False ''z'']" "memMerger fst" memStorage
          "\<lparr>table = [todo ''a'' (Some 9) False ''w''], pending = []\<rparr>" "[]" "()"]
  by (simp add: page_of_def itemsMap_of_def Map_values_def memUtil_def memStorage_def
        memSave_def todo_def memMerger_def)

text \<open>
  C9. In the page, the identifiers stand in the order of their first occurrence
  in the batch, and the record at each identifier is the last one the batch
  has for it; the page is what mergePage hands to batchSave.
\<close>

theorem mergePage_first_seen_order:
  "map (getIdentifierValue util md) (page_of util md items) =
     firstSeen (map (getIdentifierValue util md) items) \<and>
   page_of util md items =
     map (\<lambda>k. last (filter (\<lambda>x. getIdentifierValue util md x = k) items))
         (firstSeen (map (getIdentifierValue util md) items)) \<and>
   mergePage this util storage s ctor items md =
     batchSave storage s ctor (page_of util md items) (Some (ownSymbol this))"
  by (intro conjI) (rule page_ids, rule page_of_eq, simp add: mergePage_def Let_def)

theorem mergePage_first_seen_order_witness:
  "map (getIdentifierValue memUtil ())
     (page_of memUtil () [todo ''a'' (Some 5) False ''x'', todo ''b'' (Some 1) False ''y'',
                          todo ''a'' (Some 3) False ''z'', todo ''c'' None False ''u'',
                          todo ''b'' (Some 2) True ''v'']) = [''a'', ''b'', ''c''] \<and>
   page_of memUtil () [todo ''a'' (Some 5) False ''x'', todo ''b'' (Some 1) False ''y'',
                       todo ''a'' (Some 3) False ''z'', todo ''c'' None False ''u'',
                       todo ''b'' (Some 2) True ''v''] =
     [todo ''a'' (Some 3) False ''z'', todo ''b'' (Some 2) True ''v'', todo ''c'' None False ''u'']"
  using mergePage_first_seen_order [of memUtil "()"
          "[todo ''a'' (Some 5) False ''x'', todo ''b'' (Some 1) False ''y'',
            todo ''a'' (Some 3) False ''z'', todo ''c'' None False ''u'',
            todo ''b'' (Some 2) True ''v'']" "memMerger (\<lambda>s. s)" memStorage
          "\<lparr>table = [], pending = []\<rparr>" "()"]
  by (simp add: memUtil_def todo_def)

subsection \<open>The origin marker\<close>

text \<open>
  C7. Whatever merge and mergePage write to storage, they write with the
  Merger's own symbol as the mutator: either method leaves the log of earlier
  writes as it is, the writes it adds all carry the symbol (mergePage adds
  exactly one), and none of them is among the writes whose notification is
  re-enqueued into the Outbox.
\<close>

theorem merger_writes_carry_ownSymbol:
  "take (length log) (snd (snd (merge this util (recording storage) (s, log) r md ctor))) = log \<and>
   list_all (\<lambda>w. mutatorOf w = Some (ownSymbol this))
     (drop (length log) (snd (snd (merge this util (recording storage) (s, log) r md ctor)))) \<and>
   reenqueued (ownSymbol this)
     (drop (length log) (snd (snd (merge this util (recording storage) (s, log) r md ctor)))) = [] \<and>
   take (length log)
     (snd (snd (mergePage this util (recording storage) (s, log) ctor items md))) = log \<and>
   list_all (\<lambda>w. mutatorOf w = Some (ownSymbol this))
     (drop (length log)
        (snd (snd (mergePage this util (recording storage) (s, log) ctor items md)))) \<and>
   reenqueued (ownSymbol this)
     (drop (length log)
        (snd (snd (mergePage this util (recording storage) (s, log) ctor items md)))) = [] \<and>
   length (snd (snd (mergePage this util (recording storage) (s, log) ctor items md))) =
     Suc (length log)"
  by (simp add: merge_def mergePage_def recording_def reenqueued_def Let_def
      split: list.splits prod.splits)

theorem merger_writes_carry_ownSymbol_witness:
  "map mutatorOf (snd (snd (merge (memMerger fst) memUtil (recording memStorage)
      (\<lparr>table = [todo ''a'' (Some 1) False ''x''], pending = []\<rparr>, [])
      (todo ''a'' (Some 2) False ''y'') () ()))) = [Some 7] \<and>
   map mutatorOf (snd (snd (mergePage (memMerger fst) memUtil (recording memStorage)
      (\<lparr>table = [todo ''a'' (Some 1) False ''x''], pending = []\<rparr>, []) ()
      [todo ''a'' (Some 2) False ''y''] ()))) = [Some 7]"
  using merger_writes_carry_ownSymbol [where this = "memMerger fst" and util = memUtil
          and storage = memStorage
          and s = "\<lparr>table = [todo ''a'' (Some 1) False ''x''], pending = []\<rparr>" and log = "[]"
          and r = "todo ''a'' (Some 2) False ''y''" and md = "()" and ctor = "()"
          and items = "[todo ''a'' (Some 2) False ''y'']"]
  by (simp add: merge_def mergePage_def recording_def page_of_def itemsMap_of_def Map_values_def
        pkPredicate_def js_less_def Let_def memMerger_def memOutbox_def
        memUtil_def memStorage_def memSave_def todo_def)

section \<open>Properties of the connectivity monitor\<close>

subsection \<open>Auxiliary facts\<close>

lemma sub_updSub [simp]:
  "subscriptions (updSub i f st) j = (if j = i then f (subscriptions st i) else subscriptions st j)"
  "observers (updSub i f st) = observers st"
  "nextObserver (updSub i f st) = nextObserver st"
  "logged (updSub i f st) = logged st"
  by (simp_all add: updSub_def)

lemma sub_loggerLog [simp]:
  "subscriptions (loggerLog m a st) = subscriptions st"
  "observers (loggerLog m a st) = observers st"
  "nextObserver (loggerLog m a st) = nextObserver st"
  by (simp_all add: loggerLog_def)

lemma sub_observerNext:
  "subscriptions (observerNext i status st) j =
     (if j = i \<and> \<not> closed (subscriptions st i)
      then (subscriptions st i)\<lparr>received := received (subscriptions st i) @ [status]\<rparr>
      else subscriptions st j)"
  "observers (observerNext i status st) = observers st"
  "nextObserver (observerNext i status st) = nextObserver st"
  by (simp_all add: observerNext_def)

lemma sub_initialFetchResolved:
  "subscriptions (initialFetchResolved i v st) j =
     (if j = i
      then (subscriptions st i)
             \<lparr>onlineVar := v,
              received := (if closed (subscriptions st i) then received (subscriptions st i)
                           else received (subscriptions st i) @ [\<lparr>online = v\<rparr>])\<rparr>
      else subscriptions st j)"
  "observers (initialFetchResolved i v st) = observers st"
  "nextObserver (initialFetchResolved i v st) = nextObserver st"
  by (simp_all add: initialFetchResolved_def Let_def sub_observerNext)

lemma sub_intervalFetchResolved:
  "subscriptions (intervalFetchResolved i v st) j =
     (if j = i \<and> onlineVar (subscriptions st i) \<noteq> v
      then (subscriptions st i)
             \<lparr>onlineVar := v,
              received := (if closed (subscriptions st i) then received (subscriptions st i)
                           else received (subscriptions st i) @ [\<lparr>online = v\<rparr>])\<rparr>
      else subscriptions st j)"
  "observers (intervalFetchResolved i v st) = observers st"
  "nextObserver (intervalFetchResolved i v st) = nextObserver st"
  by (simp_all add: intervalFetchResolved_def Let_def sub_observerNext)

lemma sub_unsubscribe:
  "subscriptions (unsubscribe i st) j =
     (if j = i \<and> \<not> closed (subscriptions st i)
      then (subscriptions st i)\<lparr>closed := True, intervalSet := False\<rparr>
      else subscriptions st j)"
  "observers (unsubscribe i st) =
     (if closed (subscriptions st i) then observers st
      else filter (\<lambda>observer'. observer' \<noteq> i) (observers st))"
  "nextObserver (unsubscribe i st) = nextObserver st"
  by (simp_all add: unsubscribe_def Let_def)

lemma sub_subscribe:
  "fst (subscribe observable st) = nextObserver st"
  "subscriptions (snd (subscribe observable st)) j =
     (if j = nextObserver st
      then \<lparr>closed = False, onlineVar = False, received = [], intervalSet = True\<rparr>
      else subscriptions st j)"
  "observers (snd (subscribe observable st)) = observers st @ [nextObserver st]"
  "nextObserver (snd (subscribe observable st)) = Suc (nextObserver st)"
  by (simp_all add: subscribe_def Let_def)

lemmas sub_simps = sub_observerNext sub_initialFetchResolved sub_intervalFetchResolved
  sub_unsubscribe sub_subscribe

lemma step_other:
  assumes "otherOnly i e" and "i < nextObserver st"
  shows "subscriptions (step e st) i = subscriptions st i \<and> i < nextObserver (step e st)"
  using assms by (cases e) (auto simp: sub_simps)

lemma run_other:
  assumes "list_all (otherOnly i) es" and "i < nextObserver st"
  shows "subscriptions (run es st) i = subscriptions st i \<and> i < nextObserver (run es st)"
  using assms unfolding run_def
proof (induction es arbitrary: st)
  case Nil
  then show ?case by simp
next
  case (Cons e es)
  then show ?case using step_other [of i e st] by simp
qed

lemma status_neq: "online s \<noteq> v \<Longrightarrow> s \<noteq> \<lparr>online = v\<rparr>"
  by auto

lemma step_inSync:
  assumes "pollOnly i e" and "inSync i st"
  shows "inSync i (step e st) \<and>
         hd (received (subscriptions (step e st) i)) = hd (received (subscriptions st i))"
proof (cases e)
  case (Subscribe x1)
  with assms show ?thesis by (auto simp: inSync_def sub_simps)
next
  case (InitialFetch j v)
  with assms show ?thesis by (auto simp: inSync_def sub_simps)
next
  case (IntervalFetch j v)
  with assms show ?thesis
    by (auto simp: inSync_def sub_simps distinct_adj_append_iff status_neq)
next
  case (Unsubscribe j)
  with assms show ?thesis by (auto simp: inSync_def sub_simps)
next
  case (Override x5)
  with assms show ?thesis by simp
qed

lemma run_inSync:
  assumes "list_all (pollOnly i) es" and "inSync i st"
  shows "inSync i (run es st) \<and>
         hd (received (subscriptions (run es st) i)) = hd (received (subscriptions st i))"
  using assms unfolding run_def
proof (induction es arbitrary: st)
  case Nil
  then show ?case by simp
next
  case (Cons e es)
  from Cons.prems have e: "pollOnly i e" and es: "list_all (pollOnly i) es" by simp_all
  from step_inSync [OF e Cons.prems(2)] Cons.IH [OF es, of "step e st"]
  show ?case by simp
qed

lemma initialFetch_inSync:
  assumes "\<not> closed (subscriptions st i)" and "received (subscriptions st i) = []"
      and "i < nextObserver st"
  shows "inSync i (initialFetchResolved i v st)"
  using assms by (simp add: inSync_def sub_simps)

lemma closed_observerNext [simp]:
  "closed (subscriptions (observerNext i status st) j) = closed (subscriptions st j)"
  by (simp add: sub_observerNext)

lemma overrideLoop_rest:
  "nextObserver (observerOverrideLoop os status st) = nextObserver st \<and>
   logged (observerOverrideLoop os status st) = logged st"
  by (induction os status st rule: observerOverrideLoop.induct)
     (simp_all add: observerNext_def updSub_def)

lemma overrideLoop_observers:
  "observers (observerOverrideLoop os status st) =
     filter (\<lambda>i. \<not> (i \<in> set os \<and> closed (subscriptions st i))) (observers st)"
proof (induction os status st rule: observerOverrideLoop.induct)
  case (1 status st)
  show ?case by simp
next
  case (2 observer rest status st)
  show ?case
  proof (cases "closed (subscriptions st observer)")
    case True
    with 2 show ?thesis by (auto intro: filter_cong)
  next
    case False
    with 2 show ?thesis by (auto simp: sub_observerNext intro: filter_cong)
  qed
qed

lemma overrideLoop_subscriptions:
  "distinct os \<Longrightarrow>
   subscriptions (observerOverrideLoop os status st) i =
     (if i \<in> set os \<and> \<not> closed (subscriptions st i)
      then (subscriptions st i)\<lparr>received := received (subscriptions st i) @ [status]\<rparr>
      else subscriptions st i)"
proof (induction os status st rule: observerOverrideLoop.induct)
  case (1 status st)
  show ?case by simp
next
  case (2 observer rest status st)
  then show ?case
    by (cases "closed (subscriptions st observer)") (auto simp: sub_observerNext)
qed

lemma step_observers_fresh:
  assumes "distinct (observers st) \<and> (\<forall>j\<in>set (observers st). j < nextObserver st)"
  shows "distinct (observers (step e st)) \<and>
         (\<forall>j\<in>set (observers (step e st)). j < nextObserver (step e st))"
proof (cases e)
  case (Subscribe x1)
  with assms show ?thesis by (auto simp: sub_simps)
next
  case (InitialFetch j v)
  with assms show ?thesis by (simp add: sub_simps)
next
  case (IntervalFetch j v)
  with assms show ?thesis by (simp add: sub_simps)
next
  case (Unsubscribe j)
  with assms show ?thesis by (simp add: sub_simps)
next
  case (Override status)
  with assms show ?thesis
    by (simp add: observerOverride_def overrideLoop_observers overrideLoop_rest)
qed

lemma run_distinct_observers: "distinct (observers (run es noReachability))"
proof -
  have "distinct (observers (fold step es st)) \<and>
        (\<forall>j\<in>set (observers (fold step es st)). j < nextObserver (fold step es st))"
    if "distinct (observers st) \<and> (\<forall>j\<in>set (observers st). j < nextObserver st)" for st :: Reachability
    using that
  proof (induction es arbitrary: st)
    case Nil
    then show ?case by simp
  next
    case (Cons e es)
    from Cons.IH [OF step_observers_fresh [OF Cons.prems, of e]]
    show ?case by simp
  qed
  from this [of noReachability] show ?thesis
    by (simp add: run_def noReachability_def)
qed

subsection \<open>Emission on change only\<close>






text \<open>
  A consequence for the usual order. When the initial fetch of \<open>i\<close> resolves
  before any poll of \<open>i\<close> does (\<open>es0\<close> holds events of other subscribers
  only) and the override is not used, \<open>i\<close> receives the initial value first
  and no two values in a row are the same.
\<close>

lemma initial_fetch_first_no_repeats:
  assumes "subscribe observable st0 = (i, st1)"
      and "list_all (otherOnly i) es0"
      and "list_all (pollOnly i) es"
  shows "received (subscriptions (run (es0 @ [InitialFetch i v]) st1) i) = [\<lparr>online = v\<rparr>] \<and>
         (\<exists>rest. received (subscriptions (run (es0 @ InitialFetch i v # es) st1) i) =
                   \<lparr>online = v\<rparr> # rest) \<and>
         distinct_adj (received (subscriptions (run (es0 @ InitialFetch i v # es) st1) i)) \<and>
         (\<forall>w. received (subscriptions
                  (run (es0 @ InitialFetch i v # es @ [IntervalFetch i w]) st1) i) =
               (if \<not> closed (subscriptions (run (es0 @ InitialFetch i v # es) st1) i) \<and>
                   w \<noteq> online (last (received
                         (subscriptions (run (es0 @ InitialFetch i v # es) st1) i)))
                then received (subscriptions (run (es0 @ InitialFetch i v # es) st1) i) @
                       [\<lparr>online = w\<rparr>]
                else received (subscriptions (run (es0 @ InitialFetch i v # es) st1) i)))"
proof -
  let ?before = "run es0 st1"
  let ?first = "initialFetchResolved i v ?before"
  let ?after = "run es ?first"
  from assms(1) have i: "i = nextObserver st0" and st1: "st1 = snd (subscribe observable st0)"
    using sub_subscribe(1) [of observable st0] by simp_all
  have fresh: "subscriptions st1 i =
      \<lparr>closed = False, onlineVar = False, received = [], intervalSet = True\<rparr>"
    and alloc: "i < nextObserver st1"
    by (simp_all add: i st1 sub_subscribe)
  from run_other [OF assms(2) alloc]
  have s0: "subscriptions ?before i = subscriptions st1 i" "i < nextObserver ?before" by simp_all
  have first: "received (subscriptions ?first i) = [\<lparr>online = v\<rparr>]"
    by (simp add: sub_initialFetchResolved s0 fresh)
  have "inSync i ?first"
    by (rule initialFetch_inSync) (simp_all add: s0 fresh)
  from run_inSync [OF assms(3) this]
  have inv: "inSync i ?after" and hd: "hd (received (subscriptions ?after i)) = \<lparr>online = v\<rparr>"
    by (simp_all add: first)
  have r1: "run (es0 @ [InitialFetch i v]) st1 = ?first"
    and r2: "run (es0 @ InitialFetch i v # es) st1 = ?after"
    and r3: "run (es0 @ InitialFetch i v # es @ [IntervalFetch i w]) st1 =
             intervalFetchResolved i w ?after"
    for w
    by (simp_all add: run_def)
  from inv hd have "\<exists>rest. received (subscriptions ?after i) = \<lparr>online = v\<rparr> # rest"
    by (cases "received (subscriptions ?after i)") (simp_all add: inSync_def)
  moreover from inv have "distinct_adj (received (subscriptions ?after i))"
    by (simp add: inSync_def)
  moreover have "received (subscriptions (intervalFetchResolved i w ?after) i) =
      (if \<not> closed (subscriptions ?after i) \<and> w \<noteq> online (last (received (subscriptions ?after i)))
       then received (subscriptions ?after i) @ [\<lparr>online = w\<rparr>]
       else received (subscriptions ?after i))" for w
    using inv by (auto simp: inSync_def sub_intervalFetchResolved)
  ultimately show ?thesis
    unfolding r1 r2 r3 using first by blast
qed

subsection \<open>The missing probe\<close>

text \<open>
  C8. Called without \<^verbatim>\<open>netInfo\<close>, or with one that has no \<^verbatim>\<open>fetch\<close>,
  \<^verbatim>\<open>networkMonitor\<close> throws its configuration error at the call; called with
  a probe it returns the Observable. It throws in those two cases only, and in
  no case has the call changed the monitor's state: no observer is registered,
  nothing is logged.
\<close>

theorem networkMonitor_requires_probe:
  "networkMonitor (None :: 'f NetInfo option) st =
     (Inl (Error ''NetInfo must be passed to networkMonitor to enable reachability in React Native''), st) \<and>
   networkMonitor (Some \<lparr>fetch = (None :: 'f option)\<rparr>) st =
     (Inl (Error ''NetInfo must be passed to networkMonitor to enable reachability in React Native''), st) \<and>
   networkMonitor (Some \<lparr>fetch = Some (f :: 'f)\<rparr>) st = (Inr (Observable f), st) \<and>
   (\<exists>e. fst (networkMonitor (netInfo :: 'f NetInfo option) st) = Inl e) =
     (netInfo = None \<or> (\<exists>n. netInfo = Some n \<and> fetch n = None)) \<and>
   snd (networkMonitor netInfo st) = st"
  by (auto simp: networkMonitor_def split: option.splits)

theorem networkMonitor_requires_probe_witness:
  "fst (networkMonitor (None :: unit NetInfo option) noReachability) =
     Inl (Error ''NetInfo must be passed to networkMonitor to enable reachability in React Native'') \<and>
   fst (networkMonitor (Some \<lparr>fetch = Some ()\<rparr>) noReachability) = Inr (Observable ())"
  using networkMonitor_requires_probe [of noReachability "()" "None"]
  by simp

subsection \<open>The override\<close>

text \<open>
  C10. In a state whose \<^verbatim>\<open>_observers\<close> holds no observer twice (every state the
  monitor reaches, \<open>run_distinct_observers\<close>), \<^verbatim>\<open>_observerOverride\<close> delivers the
  status to every observer of the list that is not closed and to no other,
  leaves every closure's \<^verbatim>\<open>online\<close> as it was, and prunes the closed observers
  from the list. So a poll that next resolves with the forced value, where the
  closure still holds another, delivers that value a second time; the run at
  the end is one such: the subscriber receives false, then true from the
  override, then true again from the poll.
\<close>

theorem override_delivers_without_sync:
  assumes "distinct (observers st)"
  shows "(\<forall>i. subscriptions (observerOverride status st) i =
              (if i \<in> set (observers st) \<and> \<not> closed (subscriptions st i)
               then (subscriptions st i)\<lparr>received := received (subscriptions st i) @ [status]\<rparr>
               else subscriptions st i)) \<and>
         (\<forall>i. onlineVar (subscriptions (observerOverride status st) i) =
              onlineVar (subscriptions st i)) \<and>
         observers (observerOverride status st) =
           filter (\<lambda>i. \<not> closed (subscriptions st i)) (observers st) \<and>
         (\<forall>i. i \<in> set (observers st) \<and> \<not> closed (subscriptions st i) \<and>
              onlineVar (subscriptions st i) \<noteq> online status \<longrightarrow>
              received (subscriptions
                (intervalFetchResolved i (online status) (observerOverride status st)) i) =
                received (subscriptions st i) @ [status, status]) \<and>
         map online (received (subscriptions
           (run [Subscribe (Observable ()), InitialFetch 0 False,
                 Override \<lparr>online = True\<rparr>, IntervalFetch 0 True] noReachability) 0)) =
           [False, True, True]"
proof -
  have subs: "subscriptions (observerOverride status st) i =
              (if i \<in> set (observers st) \<and> \<not> closed (subscriptions st i)
               then (subscriptions st i)\<lparr>received := received (subscriptions st i) @ [status]\<rparr>
               else subscriptions st i)" for i
    using overrideLoop_subscriptions [OF assms] by (simp add: observerOverride_def)
  have obs: "observers (observerOverride status st) =
           filter (\<lambda>i. \<not> closed (subscriptions st i)) (observers st)"
    by (auto simp: observerOverride_def overrideLoop_observers intro: filter_cong)
  have ex: "map online (received (subscriptions
           (run [Subscribe (Observable ()), InitialFetch 0 False,
                 Override \<lparr>online = True\<rparr>, IntervalFetch 0 True] noReachability) 0)) =
           [False, True, True]"
    by (simp add: run_def sub_simps noReachability_def observerOverride_def)
  from subs obs ex show ?thesis
    by (simp add: sub_intervalFetchResolved)
qed

theorem override_delivers_without_sync_witness:
  "distinct (observers (run [Subscribe (Observable ()), Subscribe (Observable ()),
                              InitialFetch 0 False, InitialFetch 1 True]
                         noReachability)) \<and>
   map (\<lambda>i. map online (received (subscriptions
          (observerOverride \<lparr>online = True\<rparr>
             (run [Subscribe (Observable ()), Subscribe (Observable ()),
                   InitialFetch 0 False, InitialFetch 1 True] noReachability)) i))) [0, 1] =
     [[False, True], [True, True]]"
  using override_delivers_without_sync
          [of "run [Subscribe (Observable ()), Subscribe (Observable ()),
                    InitialFetch 0 False, InitialFetch 1 True] noReachability"
              "\<lparr>online = True\<rparr>"]
  by (simp add: run_def sub_simps noReachability_def)

section \<open>Properties of the Outbox\<close>

subsection \<open>Auxiliary facts\<close>





lemma find_Some_key: "find P xs = Some x \<Longrightarrow> P x \<and> x \<in> set xs"
  by (induction xs) (auto split: if_splits)

lemma eventKey_update [simp]:
  "eventKey (e\<lparr>operationType := op, data := d\<rparr>) = eventKey e"
  "eventKey (e\<lparr>attemptCount := n\<rparr>) = eventKey e"
  by (simp_all add: eventKey_def)












subsection \<open>One pending event per identifier\<close>



section \<open>Properties of the PredicateCompiler\<close>

subsection \<open>Auxiliary facts\<close>

lemma repeated_entry:
  "\<not> distinct xs \<Longrightarrow> \<exists>x. find (\<lambda>f. 1 < count_list xs f) xs = Some x"
proof -
  assume "\<not> distinct xs"
  then have "\<exists>x\<in>set xs. 1 < count_list xs x"
  proof (induction xs)
    case Nil
    then show ?case by simp
  next
    case (Cons a xs)
    show ?case
    proof (cases "a \<in> set xs")
      case True
      then have "count_list xs a \<noteq> 0" by (simp add: count_list_0_iff)
      then have "0 < count_list xs a" by simp
      then show ?thesis by auto
    next
      case False
      with Cons.prems have "\<not> distinct xs" by simp
      from Cons.IH [OF this] obtain x where "x \<in> set xs" "1 < count_list xs x" by blast
      then have "x \<in> set (a # xs)" "1 < count_list (a # xs) x" by simp_all
      then show ?thesis by blast
    qed
  qed
  then show ?thesis
    by (cases "find (\<lambda>f. 1 < count_list xs f) xs") (auto simp: find_None_iff)
qed

lemma repeatedField_None:
  "(repeatedField node = None) = (\<forall>g\<in>set (andGroups node). distinct (leafFields g))"
proof (cases "find (\<lambda>g. \<not> distinct (leafFields g)) (andGroups node)")
  case None
  then have "\<forall>g\<in>set (andGroups node). distinct (leafFields g)"
    by (auto simp: find_None_iff)
  with None show ?thesis by (simp add: repeatedField_def)
next
  case (Some g)
  from find_Some_key [OF Some] have g: "\<not> distinct (leafFields g)" "g \<in> set (andGroups node)"
    by simp_all
  from repeated_entry [OF g(1)] obtain f where
    "find (\<lambda>f. 1 < count_list (leafFields g) f) (leafFields g) = Some f" ..
  with Some g show ?thesis by (auto simp: repeatedField_def)
qed

lemma repeatedField_Some:
  assumes "repeatedField node = Some (f, n)"
  shows "1 < n \<and> (\<exists>g\<in>set (andGroups node). n = count_list (leafFields g) f)"
proof -
  from assms obtain g where g: "find (\<lambda>g. \<not> distinct (leafFields g)) (andGroups node) = Some g"
    by (auto simp: repeatedField_def split: option.splits)
  with assms have f: "find (\<lambda>f. 1 < count_list (leafFields g) f) (leafFields g) = Some f"
    and n: "n = count_list (leafFields g) f"
    by (auto simp: repeatedField_def split: option.splits)
  from find_Some_key [OF g] find_Some_key [OF f] n show ?thesis by auto
qed

subsection \<open>The fallback\<close>

text \<open>
  C6. When the compiled filter of a sync expression exceeds a backend limit,
  that is, it refers to more distinct fields than the maximum, or one of its
  AND groups constrains a field twice, or it has more combinations than the
  maximum, then the filter is not feasible, none of the create, update and
  delete subscriptions gets a filter, the original predicate is the one to
  evaluate client-side, and exactly one warning is logged: it names the limit
  exceeded, with the number found in the filter and the limit it is over.
\<close>

theorem capability_exceeded_falls_back:
  assumes "maxFields limits < card (set (fieldNames node)) \<or>
           (\<exists>g\<in>set (andGroups node). \<not> distinct (leafFields g)) \<or>
           maxCombinations limits < combinations node"
  shows "\<not> feasible node limits \<and>
         onCreateFilter (applySyncExpression limits predicate node) = None \<and>
         onUpdateFilter (applySyncExpression limits predicate node) = None \<and>
         onDeleteFilter (applySyncExpression limits predicate node) = None \<and>
         clientSidePredicate (applySyncExpression limits predicate node) = Some predicate \<and>
         (\<exists>d. warnings (applySyncExpression limits predicate node) = [d] \<and>
              (case d of
                 TooManyFields found lim \<Rightarrow>
                   found = card (set (fieldNames node)) \<and> lim = maxFields limits \<and> lim < found
               | RepeatedFieldInGroup f found lim \<Rightarrow>
                   lim = 1 \<and> lim < found \<and>
                   (\<exists>g\<in>set (andGroups node). found = count_list (leafFields g) f)
               | TooManyCombinations found lim \<Rightarrow>
                   found = combinations node \<and> lim = maxCombinations limits \<and> lim < found))"
proof -
  have len: "length (remdups (fieldNames node)) = card (set (fieldNames node))"
    by (simp add: length_remdups_card_conv)
  show ?thesis
  proof (cases "maxFields limits < length (remdups (fieldNames node))")
    case True
    then show ?thesis
      by (simp add: feasible_def applySyncExpression_def exceededLimit_def len)
  next
    case False
    note nf = this
    show ?thesis
    proof (cases "repeatedField node")
      case (Some fn)
      obtain f n where fn: "fn = (f, n)" by (cases fn)
      from repeatedField_Some [of node f n] Some fn
      have "1 < n" "\<exists>g\<in>set (andGroups node). n = count_list (leafFields g) f" by simp_all
      with nf Some fn show ?thesis
        by (simp add: feasible_def applySyncExpression_def exceededLimit_def)
    next
      case None
      with repeatedField_None [of node] have "\<forall>g\<in>set (andGroups node). distinct (leafFields g)"
        by simp
      with assms nf len have "maxCombinations limits < combinations node" by auto
      with nf None show ?thesis
        by (simp add: feasible_def applySyncExpression_def exceededLimit_def)
    qed
  qed
qed

theorem capability_exceeded_falls_back_witness:
  "maxFields serviceLimits < card (set (fieldNames fieldLimitExceededFilter)) \<and>
   applySyncExpression serviceLimits ''six fields'' fieldLimitExceededFilter =
     \<lparr> syncQueryFilter = None, onCreateFilter = None, onUpdateFilter = None,
       onDeleteFilter = None, clientSidePredicate = Some ''six fields'',
       warnings = [TooManyFields 6 5] \<rparr> \<and>
   applySyncExpression serviceLimits ''between'' repeatedFieldInGroupFilter =
     \<lparr> syncQueryFilter = None, onCreateFilter = None, onUpdateFilter = None,
       onDeleteFilter = None, clientSidePredicate = Some ''between'',
       warnings = [RepeatedFieldInGroup ''createdAt'' 2 1] \<rparr> \<and>
   applySyncExpression serviceLimits ''eleven ors'' combinationsExceededFilter =
     \<lparr> syncQueryFilter = None, onCreateFilter = None, onUpdateFilter = None,
       onDeleteFilter = None, clientSidePredicate = Some ''eleven ors'',
       warnings = [TooManyCombinations 11 10] \<rparr>"
proof -
  have a: "maxFields serviceLimits < card (set (fieldNames fieldLimitExceededFilter))"
    by (simp add: serviceLimits_def fieldLimitExceededFilter_def)
  have b: "\<exists>g\<in>set (andGroups repeatedFieldInGroupFilter). \<not> distinct (leafFields g)"
    by (simp add: repeatedFieldInGroupFilter_def)
  have c: "maxCombinations serviceLimits < combinations combinationsExceededFilter"
    by (simp add: serviceLimits_def combinationsExceededFilter_def)
  from capability_exceeded_falls_back [of serviceLimits fieldLimitExceededFilter "''six fields''"] a
       capability_exceeded_falls_back [of serviceLimits repeatedFieldInGroupFilter "''between''"] b
       capability_exceeded_falls_back [of serviceLimits combinationsExceededFilter "''eleven ors''"] c
  show ?thesis
    by (simp add: applySyncExpression_def exceededLimit_def repeatedField_def serviceLimits_def
          fieldLimitExceededFilter_def repeatedFieldInGroupFilter_def
          combinationsExceededFilter_def)
qed

lemma accepted_filters_of_the_tests:
  "applySyncExpression serviceLimits p containsFilter =
     \<lparr> syncQueryFilter = Some containsFilter, onCreateFilter = Some containsFilter,
       onUpdateFilter = Some containsFilter, onDeleteFilter = Some containsFilter,
       clientSidePredicate = None, warnings = [] \<rparr> \<and>
   applySyncExpression serviceLimits p nestedFilter =
     \<lparr> syncQueryFilter = Some nestedFilter, onCreateFilter = Some nestedFilter,
       onUpdateFilter = Some nestedFilter, onDeleteFilter = Some nestedFilter,
       clientSidePredicate = None, warnings = [] \<rparr>"
  by (simp add: applySyncExpression_def exceededLimit_def repeatedField_def serviceLimits_def
        containsFilter_def nestedFilter_def)

lemma rejected_filters_of_the_tests:
  "exceededLimit serviceLimits fieldLimitExceededFilter = Some (TooManyFields 6 5) \<and>
   exceededLimit serviceLimits repeatedFieldInGroupFilter =
     Some (RepeatedFieldInGroup ''createdAt'' 2 1) \<and>
   exceededLimit serviceLimits combinationsExceededFilter = Some (TooManyCombinations 11 10)"
  by (simp add: exceededLimit_def repeatedField_def serviceLimits_def
        fieldLimitExceededFilter_def repeatedFieldInGroupFilter_def combinationsExceededFilter_def)

end
